theory Spec2Isabelle
  imports Complex_Main "HOL-Library.Word" "HOL-Library.Signed_Division" "HOL-Library.Log_Nat"
begin

section \<open>binarySearch (src/ipsa\_sched.c, lines 240--255)\<close>

text \<open>
  \<^verbatim>\<open>
  int binarySearch(const int arr[], int size, int target) {
      int left = 0;
      int right = size - 1;
      while (left <= right) {
          int mid = left + (right - left) / 2;
          if (arr[mid] == target) {
              return 0;
          } else if (arr[mid] < target) {
              left = mid + 1;
          } else {
              right = mid - 1;
          }
      }
  }
  \<close>
  The C function works on \<open>int\<close> values. Indices are modelled as mathematical integers and
  every arithmetic step of the source is checked against the range of a 32-bit \<open>int\<close>:
  a step that leaves the range is signed overflow, which C leaves undefined, and the model
  ends with \<open>SignedOverflow\<close> there. A read outside the list ends with \<open>OutOfBounds\<close>.
  The function has a single \<open>return\<close> statement, \<open>return 0\<close>; when the loop condition
  fails, control reaches the closing brace without any \<open>return\<close>, which is \<open>FellOffEnd\<close>.
\<close>

datatype outcome = Returned int | FellOffEnd | OutOfBounds | SignedOverflow

definition INT_MAX :: int where
  "INT_MAX = 2147483647"

definition INT_MIN :: int where
  "INT_MIN = - 2147483648"

definition in_int :: "int \<Rightarrow> bool" where
  "in_int x = (INT_MIN \<le> x \<and> x \<le> INT_MAX)"

text \<open>One pass through the body of the \<open>while\<close> loop: either the function is left
  (\<open>Done\<close>) or the loop goes on with new values of \<open>left\<close> and \<open>right\<close>.\<close>

datatype iteration = Done outcome | Continue int int

definition while_body :: "int list \<Rightarrow> int \<Rightarrow> int \<Rightarrow> int \<Rightarrow> iteration" where
  "while_body arr target left right =
     (if \<not> in_int (right - left) then Done SignedOverflow
      else
        let mid = left + (right - left) sdiv 2 in
        if \<not> in_int mid then Done SignedOverflow
        else if mid < 0 \<or> int (length arr) \<le> mid then Done OutOfBounds
        else if arr ! nat mid = target then Done (Returned 0)
        else if arr ! nat mid < target then
          (if in_int (mid + 1) then Continue (mid + 1) right else Done SignedOverflow)
        else
          (if in_int (mid - 1) then Continue left (mid - 1) else Done SignedOverflow))"

function bs_loop :: "int list \<Rightarrow> int \<Rightarrow> int \<Rightarrow> int \<Rightarrow> outcome" where
  "bs_loop arr target left right =
     (if left \<le> right then
        (case while_body arr target left right of
           Done res \<Rightarrow> res
         | Continue l r \<Rightarrow> bs_loop arr target l r)
      else FellOffEnd)"
  by pat_completeness auto
termination
proof (relation "measure (\<lambda>(arr, target, left, right). nat (right - left + 1))")
  show "wf (measure (\<lambda>(arr :: int list, target :: int, left :: int, right :: int).
              nat (right - left + 1)))"
    by simp
next
  fix arr :: "int list" and target left right l r :: int
  assume le: "left \<le> right" and c: "while_body arr target left right = Continue l r"
  have d: "(right - left) sdiv 2 = (right - left) div 2"
    using le by (simp add: signed_divide_int_def sgn_if)
  from c have "(l = left + (right - left) div 2 + 1 \<and> r = right) \<or>
               (l = left \<and> r = left + (right - left) div 2 - 1)"
    by (auto simp: while_body_def Let_def d split: if_splits)
  with le have "r - l < right - left"
    by auto
  with le show "((arr, target, l, r), (arr, target, left, right))
      \<in> measure (\<lambda>(arr, target, left, right). nat (right - left + 1))"
    by simp
qed

definition binarySearch :: "int list \<Rightarrow> int \<Rightarrow> int \<Rightarrow> outcome" where
  "binarySearch arr sz target =
     (if in_int (sz - 1) then bs_loop arr target 0 (sz - 1) else SignedOverflow)"

text \<open>The loop run with a bound on the number of passes: \<open>None\<close> when the bound is
  used up while the loop condition still holds.\<close>

fun bs_fuel :: "nat \<Rightarrow> int list \<Rightarrow> int \<Rightarrow> int \<Rightarrow> int \<Rightarrow> outcome option" where
  "bs_fuel 0 arr target left right = (if left \<le> right then None else Some FellOffEnd)"
| "bs_fuel (Suc k) arr target left right =
     (if left \<le> right then
        (case while_body arr target left right of
           Done res \<Rightarrow> Some res
         | Continue l r \<Rightarrow> bs_fuel k arr target l r)
      else Some FellOffEnd)"

section \<open>Kernel services used by the file\<close>

text \<open>
  \<open>TickType_t\<close> is declared in the kernel's headers, which are not part of the source
  file. It is an unsigned integer type whose width the port and its configuration decide;
  the source file fixes none. A tick value is a natural number here, the width is the
  parameter \<open>tick_bits\<close> of the kernel below, and the arithmetic of the unsigned C type is
  written out: it wraps around at \<open>2 ^ tick_bits\<close>.
\<close>

type_synonym TickType_t = nat

type_synonym uint32_t = "32 word"

definition mainQUEUE_LENGTH :: nat where
  "mainQUEUE_LENGTH = 4"

definition mainVALUE_SENT_FROM_TASK :: uint32_t where
  "mainVALUE_SENT_FROM_TASK = 100"

definition mainVALUE_SENT_FROM_TIMER :: uint32_t where
  "mainVALUE_SENT_FROM_TIMER = 200"

text \<open>\<open>sizeof(uint32_t)\<close>, in bytes.\<close>

definition sizeof_uint32_t :: nat where
  "sizeof_uint32_t = 4"

text \<open>
  What the file needs from its surroundings. \<open>tskIDLE_PRIORITY\<close>,
  \<open>configMINIMAL_STACK_SIZE\<close> and \<open>pdMS_TO_TICKS\<close> are macros of headers that are not
  part of the source file and are taken as parameters, and so is the number of bits of
  \<open>TickType_t\<close>. The three flags say whether the
  kernel has memory for the queue and for the timer, and whether \<open>vTaskStartScheduler\<close>
  comes back to its caller (the source's comment: only when there was not enough heap for
  the idle or timer task).
\<close>

record kernel =
  tskIDLE_PRIORITY :: nat
  configMINIMAL_STACK_SIZE :: nat
  pdMS_TO_TICKS :: "nat \<Rightarrow> TickType_t"
  tick_bits :: nat
  queue_alloc_ok :: bool
  timer_alloc_ok :: bool
  scheduler_returns :: bool

record queue =
  capacity :: nat
  item_size :: nat
  items :: "uint32_t list"

record timer =
  timer_name :: string
  timer_period :: TickType_t
  auto_reload :: bool
  active :: bool

text \<open>A call that may suspend its caller: it comes back with a value, or the caller is
  blocked (what happens then depends on the other tasks and is not modelled).\<close>

datatype 'a blocking = Returns 'a | Blocks

text \<open>Modelled from the spec: \<open>xQueueCreate\<close> is a kernel function, not in the source
  file. Section 3: a bounded queue has a fixed capacity, fixed-size elements and a count of
  held elements; section 7: a creation failure is reported as a null handle.\<close>

definition xQueueCreate :: "kernel \<Rightarrow> nat \<Rightarrow> nat \<Rightarrow> queue option" where
  "xQueueCreate k uxQueueLength uxItemSize =
     (if queue_alloc_ok k
      then Some \<lparr>capacity = uxQueueLength, item_size = uxItemSize, items = []\<rparr>
      else None)"

text \<open>Modelled from the spec: \<open>xQueueSend\<close> is a kernel macro, not in the source file.
  Section 4.2: \<open>send\<close> returns false immediately if the queue is full and the maximum wait
  is zero, otherwise blocks until space frees or the wait expires; the queue is strict
  FIFO.\<close>

definition xQueueSend :: "queue \<Rightarrow> uint32_t \<Rightarrow> TickType_t \<Rightarrow> (bool \<times> queue) blocking" where
  "xQueueSend q v xTicksToWait =
     (if length (items q) < capacity q then Returns (True, q\<lparr>items := items q @ [v]\<rparr>)
      else if xTicksToWait = 0 then Returns (False, q)
      else Blocks)"

text \<open>Modelled from the spec: \<open>xQueueReceive\<close> is a kernel function, not in the source
  file. Section 4.2: \<open>receive\<close> is symmetric to \<open>send\<close> for the empty case.\<close>

definition xQueueReceive :: "queue \<Rightarrow> TickType_t \<Rightarrow> (uint32_t option \<times> queue) blocking" where
  "xQueueReceive q xTicksToWait =
     (case items q of
        v # rest \<Rightarrow> Returns (Some v, q\<lparr>items := rest\<rparr>)
      | [] \<Rightarrow> if xTicksToWait = 0 then Returns (None, q) else Blocks)"

text \<open>Modelled from the spec: \<open>xTimerCreate\<close> and \<open>xTimerStart\<close> are kernel functions,
  not in the source file. Section 4.3: \<open>create(period, mode, callback)\<close> and
  \<open>start(timerId, blockTicks)\<close>; a new timer is not running until it is started.\<close>

definition xTimerCreate :: "kernel \<Rightarrow> string \<Rightarrow> TickType_t \<Rightarrow> bool \<Rightarrow> timer option" where
  "xTimerCreate k pcTimerName xTimerPeriodInTicks uxAutoReload =
     (if timer_alloc_ok k
      then Some \<lparr>timer_name = pcTimerName, timer_period = xTimerPeriodInTicks,
                 auto_reload = uxAutoReload, active = False\<rparr>
      else None)"

definition xTimerStart :: "timer \<Rightarrow> timer" where
  "xTimerStart t = t\<lparr>active := True\<rparr>"

text \<open>Modelled from the spec: \<open>vTaskDelayUntil\<close> is a kernel function, not in the source
  file. Glossary, delay-until: the caller is suspended until an absolute tick that is
  computed from the last wake time plus the period, not from the current time; section 3:
  \<open>nextWake += period\<close> each cycle. The result is the new value that the call stores
  through its first argument; the sum is taken in \<open>TickType_t\<close>.\<close>

definition vTaskDelayUntil :: "kernel \<Rightarrow> TickType_t \<Rightarrow> TickType_t \<Rightarrow> TickType_t" where
  "vTaskDelayUntil k pxPreviousWakeTime xTimeIncrement =
     (pxPreviousWakeTime + xTimeIncrement) mod 2 ^ tick_bits k"

section \<open>ipsa\_sched (lines 146--185)\<close>

datatype task_fn = Fn_Task1 | Fn_Task2 | Fn_Task3 | Fn_Task4

text \<open>The kernel calls that the file makes, with their arguments, in the order made.\<close>

datatype kernel_call =
    Call_xQueueCreate nat nat
  | Call_xTimerCreate string TickType_t bool
  | Call_xTimerStart TickType_t
  | Call_xTaskCreate task_fn string nat nat
  | Call_vTaskStartScheduler
  | Call_xQueueSend uint32_t TickType_t

fun is_xQueueCreate :: "kernel_call \<Rightarrow> bool" where
  "is_xQueueCreate (Call_xQueueCreate _ _) = True"
| "is_xQueueCreate _ = False"

datatype final = SchedulerRunning | IdleLoop

text \<open>The two file-scope handles after startup, the calls made, and where control ends:
  inside the scheduler, or in the empty \<open>for (;;)\<close> at the end of the function.\<close>

record startup =
  xQueue :: "queue option"
  xTimer :: "timer option"
  calls :: "kernel_call list"
  ends_in :: final

definition create_tasks :: "kernel \<Rightarrow> kernel_call list" where
  "create_tasks k =
     [Call_xTaskCreate Fn_Task1 ''Task1'' (configMINIMAL_STACK_SIZE k) (tskIDLE_PRIORITY k + 1),
      Call_xTaskCreate Fn_Task2 ''Task2'' (configMINIMAL_STACK_SIZE k) (tskIDLE_PRIORITY k + 2),
      Call_xTaskCreate Fn_Task3 ''Task3'' (configMINIMAL_STACK_SIZE k) (tskIDLE_PRIORITY k + 3),
      Call_xTaskCreate Fn_Task4 ''Task4'' (configMINIMAL_STACK_SIZE k) (tskIDLE_PRIORITY k + 4)]"

definition ipsa_sched :: "kernel \<Rightarrow> startup" where
  "ipsa_sched k =
     (let xTimerPeriod = 2000;
          q = xQueueCreate k mainQUEUE_LENGTH sizeof_uint32_t;
          c0 = [Call_xQueueCreate mainQUEUE_LENGTH sizeof_uint32_t]
      in case q of
           None \<Rightarrow> \<lparr>xQueue = None, xTimer = None, calls = c0, ends_in = IdleLoop\<rparr>
         | Some _ \<Rightarrow>
             let t = xTimerCreate k ''Timer'' xTimerPeriod True;
                 c1 = c0 @ [Call_xTimerCreate ''Timer'' xTimerPeriod True];
                 t' = (case t of None \<Rightarrow> None | Some tm \<Rightarrow> Some (xTimerStart tm));
                 c2 = (case t of None \<Rightarrow> c1 | Some _ \<Rightarrow> c1 @ [Call_xTimerStart 0]);
                 c3 = c2 @ create_tasks k @ [Call_vTaskStartScheduler]
             in \<lparr>xQueue = q, xTimer = t', calls = c3,
                 ends_in = (if scheduler_returns k then IdleLoop else SchedulerRunning)\<rparr>)"

section \<open>The timer callback (lines 285--301) and the queue it feeds\<close>

text \<open>The callback is \<open>void\<close> and drops what \<open>xQueueSend\<close> returns; the model keeps the
  outcome of the call next to the list of kernel calls made, so that both can be stated.\<close>

definition prvQueueSendTimerCallback :: "queue \<Rightarrow> kernel_call list \<times> (bool \<times> queue) blocking" where
  "prvQueueSendTimerCallback q =
     (let ulValueToSend = mainVALUE_SENT_FROM_TIMER
      in ([Call_xQueueSend ulValueToSend 0], xQueueSend q ulValueToSend 0))"

text \<open>The queue after the callback has run \<open>n\<close> times in a row.\<close>

fun after_callbacks :: "nat \<Rightarrow> queue \<Rightarrow> queue" where
  "after_callbacks 0 q = q"
| "after_callbacks (Suc n) q =
     (case snd (prvQueueSendTimerCallback q) of
        Returns (_, q') \<Rightarrow> after_callbacks n q'
      | Blocks \<Rightarrow> q)"

text \<open>Any use of the queue: a send or a receive with some maximum wait. A call that
  blocks leaves the queue as it is.\<close>

datatype queue_op = Send uint32_t TickType_t | Receive TickType_t

fun queue_step :: "queue \<Rightarrow> queue_op \<Rightarrow> queue" where
  "queue_step q (Send v w) = (case xQueueSend q v w of Returns (_, q') \<Rightarrow> q' | Blocks \<Rightarrow> q)"
| "queue_step q (Receive w) = (case xQueueReceive q w of Returns (_, q') \<Rightarrow> q' | Blocks \<Rightarrow> q)"

definition queue_run :: "queue \<Rightarrow> queue_op list \<Rightarrow> queue" where
  "queue_run q ops = foldl queue_step q ops"

section \<open>The four periodic tasks (lines 187--280)\<close>

text \<open>
  A task keeps \<open>xNextWakeTime\<close> and writes to the console. Each \<open>printf\<close> is recorded by
  its format string, and the one of Task2 also by the \<open>double\<close> it is given.
\<close>

datatype printf_call = Printf string | Printf_double string "rat option"

record task_state =
  xNextWakeTime :: TickType_t
  console :: "printf_call list"

definition TASK1_FREQUENCY :: "kernel \<Rightarrow> TickType_t" where
  "TASK1_FREQUENCY k = pdMS_TO_TICKS k 4000"

definition TASK2_FREQUENCY :: "kernel \<Rightarrow> TickType_t" where
  "TASK2_FREQUENCY k = pdMS_TO_TICKS k 200"

definition TASK3_FREQUENCY :: "kernel \<Rightarrow> TickType_t" where
  "TASK3_FREQUENCY k = pdMS_TO_TICKS k 3000"

definition TASK4_FREQUENCY :: "kernel \<Rightarrow> TickType_t" where
  "TASK4_FREQUENCY k = pdMS_TO_TICKS k 800"

text \<open>The state a task starts its loop with; \<open>now\<close> is what \<open>xTaskGetTickCount\<close>
  returned.\<close>

definition task_init :: "TickType_t \<Rightarrow> task_state" where
  "task_init now = \<lparr>xNextWakeTime = now, console = []\<rparr>"

text \<open>One pass through the \<open>for (;;)\<close> loop of each task.\<close>

definition Task1_cycle :: "kernel \<Rightarrow> task_state \<Rightarrow> task_state" where
  "Task1_cycle k st =
     (let xBlockTime = TASK1_FREQUENCY k
      in st\<lparr>xNextWakeTime := vTaskDelayUntil k (xNextWakeTime st) xBlockTime,
             console := console st @ [Printf ''Working ! :D\<newline>'']\<rparr>)"

text \<open>
  The \<open>double\<close> arithmetic of Task2 is that of IEEE 754 binary64 with rounding to
  nearest, ties to even, each operation rounded to \<open>double\<close>, as on the Linux port the file
  is written for. A finite \<open>double\<close> is the rational number it stands for (the sign of
  zero is not kept); \<open>None\<close> stands for a result that is not a finite number.
\<close>

definition round_half_even :: "rat \<Rightarrow> int" where
  "round_half_even y =
     (let f = \<lfloor>y\<rfloor>; r = y - of_int f
      in if r < 1 / 2 then f
         else if 1 / 2 < r then f + 1
         else if even f then f else f + 1)"

text \<open>For \<open>x > 0\<close>, the integer \<open>e\<close> with \<open>2\<^sup>e \<le> x < 2\<^sup>e\<^sup>+\<^sup>1\<close>.\<close>

definition binary_exponent :: "rat \<Rightarrow> int" where
  "binary_exponent x =
     (if 1 \<le> x then bitlen \<lfloor>x\<rfloor> - 1 else - bitlen (\<lceil>1 / x\<rceil> - 1))"

text \<open>The \<open>double\<close> nearest to a rational: 53 significant bits, exponents from -1022 to
  1023, below that the fixed spacing \<open>2\<^sup>-\<^sup>1\<^sup>0\<^sup>7\<^sup>4\<close> of the subnormal numbers, and no finite
  result from \<open>2\<^sup>1\<^sup>0\<^sup>2\<^sup>4\<close> on.\<close>

definition binary64 :: "rat \<Rightarrow> rat option" where
  "binary64 x =
     (if x = 0 then Some 0
      else
        let e = max (binary_exponent \<bar>x\<bar>) (- 1022);
            ulp = 2 powi (e - 52);
            y = sgn x * of_int (round_half_even (\<bar>x\<bar> / ulp)) * ulp
        in if \<bar>y\<bar> < 2 powi 1024 then Some y else None)"

definition double_div :: "rat \<Rightarrow> rat \<Rightarrow> rat option" where
  "double_div a b = (if b = 0 then None else binary64 (a / b))"

definition double_sub :: "rat \<Rightarrow> rat \<Rightarrow> rat option" where
  "double_sub a b = binary64 (a - b)"

definition double_mul :: "rat \<Rightarrow> rat \<Rightarrow> rat option" where
  "double_mul a b = binary64 (a * b)"

text \<open>\<open>double fahrenheit = 100;\<close> and
  \<open>double celsius = (5.0 / 9.0) * (fahrenheit - 32.0);\<close>\<close>

definition fahrenheit :: rat where
  "fahrenheit = 100"

definition celsius :: "rat option" where
  "celsius =
     (case double_div 5 9 of
        None \<Rightarrow> None
      | Some q \<Rightarrow>
          (case double_sub fahrenheit 32 of
             None \<Rightarrow> None
           | Some d \<Rightarrow> double_mul q d))"

text \<open>What \<open>printf\<close> writes for \<open>%f\<close> and a finite \<open>double\<close>: the decimal digits of the
  value rounded to six places after the point.\<close>

definition digit_char :: "nat \<Rightarrow> char" where
  "digit_char d = ''0123456789'' ! d"

fun digits :: "nat \<Rightarrow> nat \<Rightarrow> string" where
  "digits 0 n = []"
| "digits (Suc k) n = digits k (n div 10) @ [digit_char (n mod 10)]"

text \<open>The number of decimal digits of \<open>n\<close>, at least one.\<close>

definition digit_count :: "nat \<Rightarrow> nat" where
  "digit_count n = (if n = 0 then 1 else floorlog 10 n)"

definition printf_f :: "rat \<Rightarrow> string" where
  "printf_f x =
     (let m = nat (round_half_even (\<bar>x\<bar> * 10 ^ 6))
      in (if x < 0 then ''-'' else []) @ digits (digit_count (m div 10 ^ 6)) (m div 10 ^ 6)
           @ ''.'' @ digits 6 (m mod 10 ^ 6))"

definition Task2_cycle :: "kernel \<Rightarrow> task_state \<Rightarrow> task_state" where
  "Task2_cycle k st =
     (let xBlockTime = TASK2_FREQUENCY k
      in st\<lparr>xNextWakeTime := vTaskDelayUntil k (xNextWakeTime st) xBlockTime,
             console := console st @ [Printf_double ''Temp: %f\<newline>'' celsius]\<rparr>)"

text \<open>\<open>long int\<close> is 64 bits wide on the Linux port the file is written for. The model
  takes the product \<open>num1 * num2\<close> as the machine computes it, in two's complement. Task3
  computes it in every cycle and does not use it.\<close>

definition num1 :: "64 word" where
  "num1 = 3287648234862934629"

definition num2 :: "64 word" where
  "num2 = 2346723849729472340"

definition result :: "64 word" where
  "result = num1 * num2"

definition Task3_cycle :: "kernel \<Rightarrow> task_state \<Rightarrow> task_state" where
  "Task3_cycle k st =
     (let xBlockTime = TASK3_FREQUENCY k
      in st\<lparr>xNextWakeTime := vTaskDelayUntil k (xNextWakeTime st) xBlockTime,
             console := console st @ [Printf ''Task 3 executed\<newline>'']\<rparr>)"

definition elements :: "int list" where
  "elements = [2, 4, 7, 12, 15, 20, 22, 25, 28, 30,
               32, 35, 40, 42, 45, 48, 50, 55, 60, 62,
               65, 70, 75, 80, 82, 85, 88, 90, 92, 95,
               100, 105, 110, 112, 115, 118, 120, 122, 125, 130,
               135, 140, 145, 150, 155, 160, 165, 170, 175, 180]"

definition targetElement :: int where
  "targetElement = 15"

text \<open>The call that Task4 makes in every cycle. Its value is dropped by the task.\<close>

definition Task4_search :: outcome where
  "Task4_search = binarySearch elements 50 targetElement"

definition Task4_cycle :: "kernel \<Rightarrow> task_state \<Rightarrow> task_state" where
  "Task4_cycle k st =
     (let xBlockTime = TASK4_FREQUENCY k
      in st\<lparr>xNextWakeTime := vTaskDelayUntil k (xNextWakeTime st) xBlockTime,
             console := console st @ [Printf ''Task 4 executed\<newline>'']\<rparr>)"

text \<open>A task after \<open>n\<close> passes through its loop.\<close>

definition Task1 :: "kernel \<Rightarrow> TickType_t \<Rightarrow> nat \<Rightarrow> task_state" where
  "Task1 k now n = (Task1_cycle k ^^ n) (task_init now)"

definition Task2 :: "kernel \<Rightarrow> TickType_t \<Rightarrow> nat \<Rightarrow> task_state" where
  "Task2 k now n = (Task2_cycle k ^^ n) (task_init now)"

definition Task3 :: "kernel \<Rightarrow> TickType_t \<Rightarrow> nat \<Rightarrow> task_state" where
  "Task3 k now n = (Task3_cycle k ^^ n) (task_init now)"

definition Task4 :: "kernel \<Rightarrow> TickType_t \<Rightarrow> nat \<Rightarrow> task_state" where
  "Task4 k now n = (Task4_cycle k ^^ n) (task_init now)"

text \<open>The period and the run of a task, by the function the task was created with.\<close>

fun task_period :: "task_fn \<Rightarrow> kernel \<Rightarrow> TickType_t" where
  "task_period Fn_Task1 k = TASK1_FREQUENCY k"
| "task_period Fn_Task2 k = TASK2_FREQUENCY k"
| "task_period Fn_Task3 k = TASK3_FREQUENCY k"
| "task_period Fn_Task4 k = TASK4_FREQUENCY k"

fun task_run :: "task_fn \<Rightarrow> kernel \<Rightarrow> TickType_t \<Rightarrow> nat \<Rightarrow> task_state" where
  "task_run Fn_Task1 k now n = Task1 k now n"
| "task_run Fn_Task2 k now n = Task2 k now n"
| "task_run Fn_Task3 k now n = Task3 k now n"
| "task_run Fn_Task4 k now n = Task4 k now n"

section \<open>Properties of binarySearch\<close>

lemma sdiv_2_nonneg: "0 \<le> d \<Longrightarrow> d sdiv 2 = d div (2::int)"
  by (simp add: signed_divide_int_def sgn_if)

lemma while_body_in_range:
  assumes "0 \<le> left" "left \<le> right" "right < int (length arr)" "right < INT_MAX"
  shows "while_body arr target left right =
     (let mid = left + (right - left) div 2 in
      if arr ! nat mid = target then Done (Returned 0)
      else if arr ! nat mid < target then Continue (mid + 1) right
      else Continue left (mid - 1))"
proof -
  define mid where "mid = left + (right - left) div 2"
  have m: "left \<le> mid" "mid \<le> right"
    using assms(2) by (simp_all add: mid_def)
  have r: "in_int (right - left)" "in_int mid" "in_int (mid + 1)" "in_int (mid - 1)"
    using assms m by (simp_all add: in_int_def INT_MIN_def INT_MAX_def)
  have b: "\<not> (mid < 0 \<or> int (length arr) \<le> mid)"
    using assms m by simp
  show ?thesis
    using r b assms(2) by (simp add: while_body_def Let_def sdiv_2_nonneg mid_def [symmetric])
qed

lemma bs_loop_found:
  assumes "0 \<le> left" "right < int (length arr)" "right < INT_MAX"
    and "\<forall>i j. left \<le> i \<and> i \<le> j \<and> j \<le> right \<longrightarrow> arr ! nat i \<le> arr ! nat j"
    and "\<exists>i. left \<le> i \<and> i \<le> right \<and> arr ! nat i = target"
  shows "bs_loop arr target left right = Returned 0"
  using assms
proof (induction arr target left right rule: bs_loop.induct)
  case (1 arr target left right)
  from "1.prems"(5) obtain i where i: "left \<le> i" "i \<le> right" "arr ! nat i = target"
    by blast
  then have le: "left \<le> right" by simp
  define mid where "mid = left + (right - left) div 2"
  have m: "left \<le> mid" "mid \<le> right"
    using le by (simp_all add: mid_def)
  note wb = while_body_in_range [OF "1.prems"(1) le "1.prems"(2) "1.prems"(3), of target,
      unfolded Let_def, folded mid_def]
  show ?case
  proof (cases "arr ! nat mid = target")
    case True
    then show ?thesis
      using le wb by (subst bs_loop.simps) simp
  next
    case ne: False
    show ?thesis
    proof (cases "arr ! nat mid < target")
      case True
      then have w: "while_body arr target left right = Continue (mid + 1) right"
        using wb ne by simp
      have "\<not> i \<le> mid"
      proof
        assume "i \<le> mid"
        with i m "1.prems"(4) have "arr ! nat i \<le> arr ! nat mid" by blast
        with True i show False by simp
      qed
      then have ex: "\<exists>i. mid + 1 \<le> i \<and> i \<le> right \<and> arr ! nat i = target"
        using i by (intro exI [of _ i]) simp
      have so: "\<forall>i j. mid + 1 \<le> i \<and> i \<le> j \<and> j \<le> right \<longrightarrow> arr ! nat i \<le> arr ! nat j"
        using "1.prems"(4) m by auto
      have "bs_loop arr target (mid + 1) right = Returned 0"
        using "1.IH" [OF le w] m "1.prems"(1,2,3) so ex by simp
      then show ?thesis
        using le w by (subst bs_loop.simps) simp
    next
      case False
      then have w: "while_body arr target left right = Continue left (mid - 1)"
        using wb ne by simp
      have "\<not> mid \<le> i"
      proof
        assume "mid \<le> i"
        with i m "1.prems"(4) have "arr ! nat mid \<le> arr ! nat i" by blast
        with False ne i show False by simp
      qed
      then have ex: "\<exists>i. left \<le> i \<and> i \<le> mid - 1 \<and> arr ! nat i = target"
        using i by (intro exI [of _ i]) simp
      have so: "\<forall>i j. left \<le> i \<and> i \<le> j \<and> j \<le> mid - 1 \<longrightarrow> arr ! nat i \<le> arr ! nat j"
        using "1.prems"(4) m by auto
      have "bs_loop arr target left (mid - 1) = Returned 0"
        using "1.IH" [OF le w] m "1.prems"(1,2,3) so ex by simp
      then show ?thesis
        using le w by (subst bs_loop.simps) simp
    qed
  qed
qed

lemma bs_loop_absent:
  assumes "0 \<le> left" "right < int (length arr)" "right < INT_MAX"
    and "\<forall>i. left \<le> i \<and> i \<le> right \<longrightarrow> arr ! nat i \<noteq> target"
  shows "bs_loop arr target left right = FellOffEnd"
  using assms
proof (induction arr target left right rule: bs_loop.induct)
  case (1 arr target left right)
  show ?case
  proof (cases "left \<le> right")
    case False
    then show ?thesis by (subst bs_loop.simps) simp
  next
    case le: True
    define mid where "mid = left + (right - left) div 2"
    have m: "left \<le> mid" "mid \<le> right"
      using le by (simp_all add: mid_def)
    note wb = while_body_in_range [OF "1.prems"(1) le "1.prems"(2) "1.prems"(3), of target,
        unfolded Let_def, folded mid_def]
    have ne: "arr ! nat mid \<noteq> target"
      using "1.prems"(4) m by blast
    show ?thesis
    proof (cases "arr ! nat mid < target")
      case True
      then have w: "while_body arr target left right = Continue (mid + 1) right"
        using wb ne by simp
      have "bs_loop arr target (mid + 1) right = FellOffEnd"
        using "1.IH" [OF le w] m "1.prems" by simp
      then show ?thesis
        using le w by (subst bs_loop.simps) simp
    next
      case False
      then have w: "while_body arr target left right = Continue left (mid - 1)"
        using wb ne by simp
      have "bs_loop arr target left (mid - 1) = FellOffEnd"
        using "1.IH" [OF le w] m "1.prems" by simp
      then show ?thesis
        using le w by (subst bs_loop.simps) simp
    qed
  qed
qed

lemma while_body_decreases:
  assumes "left \<le> right" and "while_body arr target left right = Continue l r"
  shows "r - l < right - left"
proof -
  define mid where "mid = left + (right - left) sdiv 2"
  have m: "left \<le> mid" "mid \<le> right"
    using assms(1) by (simp_all add: mid_def sdiv_2_nonneg)
  from assms(2) have "(l = mid + 1 \<and> r = right) \<or> (l = left \<and> r = mid - 1)"
    by (auto simp: while_body_def Let_def mid_def split: if_splits)
  with m show ?thesis by auto
qed

lemma bs_fuel_enough:
  "nat (right - left + 1) \<le> k \<Longrightarrow> bs_fuel k arr target left right = Some (bs_loop arr target left right)"
proof (induction k arbitrary: left right)
  case 0
  then have "\<not> left \<le> right" by simp
  then show ?case by (subst bs_loop.simps) simp
next
  case (Suc k)
  show ?case
  proof (cases "left \<le> right")
    case False
    then show ?thesis by (subst bs_loop.simps) simp
  next
    case le: True
    show ?thesis
    proof (cases "while_body arr target left right")
      case (Done res)
      then show ?thesis using le by (subst bs_loop.simps) simp
    next
      case (Continue l r)
      from while_body_decreases [OF le Continue] Suc.prems
      have "nat (r - l + 1) \<le> k" by simp
      from Suc.IH [OF this] show ?thesis
        using le Continue by (subst bs_loop.simps) simp
    qed
  qed
qed

lemma bs_loop_ends:
  assumes "0 \<le> left" "right < int (length arr)" "right < INT_MAX"
  shows "bs_loop arr target left right = Returned 0 \<or> bs_loop arr target left right = FellOffEnd"
  using assms
proof (induction arr target left right rule: bs_loop.induct)
  case (1 arr target left right)
  show ?case
  proof (cases "left \<le> right")
    case False
    then show ?thesis by (subst (1 2) bs_loop.simps) simp
  next
    case le: True
    define mid where "mid = left + (right - left) div 2"
    have m: "left \<le> mid" "mid \<le> right"
      using le by (simp_all add: mid_def)
    note wb = while_body_in_range [OF "1.prems"(1) le "1.prems"(2) "1.prems"(3), of target,
        unfolded Let_def, folded mid_def]
    consider (hit) "arr ! nat mid = target"
      | (up) "arr ! nat mid \<noteq> target" "arr ! nat mid < target"
      | (down) "arr ! nat mid \<noteq> target" "\<not> arr ! nat mid < target"
      by blast
    then show ?thesis
    proof cases
      case hit
      then have "bs_loop arr target left right = Returned 0"
        using le wb by (subst bs_loop.simps) simp
      then show ?thesis by simp
    next
      case up
      then have w: "while_body arr target left right = Continue (mid + 1) right"
        using wb by simp
      have e: "bs_loop arr target left right = bs_loop arr target (mid + 1) right"
        using le w by (subst bs_loop.simps) simp
      show ?thesis
        unfolding e using "1.IH" [OF le w] m "1.prems" by simp
    next
      case down
      then have w: "while_body arr target left right = Continue left (mid - 1)"
        using wb by simp
      have e: "bs_loop arr target left right = bs_loop arr target left (mid - 1)"
        using le w by (subst bs_loop.simps) simp
      show ?thesis
        unfolding e using "1.IH" [OF le w] m "1.prems" by simp
    qed
  qed
qed

text \<open>
  Claim C4. For an array whose first \<open>n\<close> elements are sorted ascending, \<open>n \<ge> 1\<close>, and a
  target that occurs among them, \<open>binarySearch\<close> returns the constant 0, wherever the
  target stands. (\<open>n\<close> is a C \<open>int\<close> and the array has at least \<open>n\<close> elements.)
\<close>

theorem binarySearch_found_returns_0:
  assumes "1 \<le> n" and "n \<le> int (length arr)" and "n \<le> INT_MAX"
    and "sorted (take (nat n) arr)" and "t \<in> set (take (nat n) arr)"
  shows "binarySearch arr n t = Returned 0"
proof -
  have r: "in_int (n - 1)"
    using assms(1,3) by (simp add: in_int_def INT_MIN_def INT_MAX_def)
  have so: "\<forall>i j. 0 \<le> i \<and> i \<le> j \<and> j \<le> n - 1 \<longrightarrow> arr ! nat i \<le> arr ! nat j"
  proof (intro allI impI)
    fix i j :: int
    assume h: "0 \<le> i \<and> i \<le> j \<and> j \<le> n - 1"
    then have "take (nat n) arr ! nat i \<le> take (nat n) arr ! nat j"
      using assms(2,4) by (intro sorted_nth_mono) auto
    then show "arr ! nat i \<le> arr ! nat j"
      using h assms(2) by simp
  qed
  from assms(5) obtain m where m: "m < length (take (nat n) arr)" "take (nat n) arr ! m = t"
    by (auto simp: in_set_conv_nth)
  then have "0 \<le> int m \<and> int m \<le> n - 1 \<and> arr ! nat (int m) = t"
    using assms(2) by simp
  then have ex: "\<exists>i. 0 \<le> i \<and> i \<le> n - 1 \<and> arr ! nat i = t"
    by blast
  have "bs_loop arr t 0 (n - 1) = Returned 0"
    using assms(2,3) so ex by (intro bs_loop_found) simp_all
  then show ?thesis
    using r by (simp add: binarySearch_def)
qed

lemma sorted_elements: "sorted elements"
  by (simp add: elements_def)

text \<open>The call of Task4: the target 15 stands at index 4 of the fixed array, and the
  search returns 0.\<close>

theorem binarySearch_found_returns_0_witness:
  "Task4_search = Returned 0 \<and> elements ! 4 = targetElement \<and> elements ! 0 \<noteq> targetElement"
proof -
  have "take (nat 50) elements = elements"
    by (simp add: elements_def)
  moreover have "targetElement \<in> set elements"
    by (simp add: elements_def targetElement_def)
  moreover have "(50::int) \<le> int (length elements)"
    by (simp add: elements_def)
  ultimately have "binarySearch elements 50 targetElement = Returned 0"
    using binarySearch_found_returns_0 [of 50 elements targetElement] sorted_elements
    by (simp add: INT_MAX_def)
  then show ?thesis
    by (simp add: Task4_search_def elements_def targetElement_def)
qed

lemma binarySearch_absent:
  assumes "0 \<le> n" and "n \<le> int (length arr)" and "n \<le> INT_MAX"
    and "t \<notin> set (take (nat n) arr)"
  shows "binarySearch arr n t = FellOffEnd"
proof -
  have r: "in_int (n - 1)"
    using assms(1,3) by (simp add: in_int_def INT_MIN_def INT_MAX_def)
  have ne: "\<forall>i. 0 \<le> i \<and> i \<le> n - 1 \<longrightarrow> arr ! nat i \<noteq> t"
  proof (intro allI impI)
    fix i :: int
    assume h: "0 \<le> i \<and> i \<le> n - 1"
    then have "take (nat n) arr ! nat i \<in> set (take (nat n) arr)"
      using assms(2) by (intro nth_mem) simp
    then show "arr ! nat i \<noteq> t"
      using h assms(2,4) by auto
  qed
  have "bs_loop arr t 0 (n - 1) = FellOffEnd"
    using assms(2,3) ne by (intro bs_loop_absent) simp_all
  then show ?thesis
    using r by (simp add: binarySearch_def)
qed

text \<open>
  Claim C3. There is a sorted array and a target absent from it for which \<open>binarySearch\<close>
  reaches the end of the function without a \<open>return\<close> statement; indeed this happens for
  every size \<open>n \<ge> 0\<close> and every target that is not among the first \<open>n\<close> elements.
\<close>

theorem binarySearch_no_return_when_absent:
  "(\<exists>arr n t. sorted arr \<and> n = int (length arr) \<and> t \<notin> set arr \<and>
       binarySearch arr n t = FellOffEnd) \<and>
   (\<forall>arr n t. 0 \<le> n \<and> n \<le> int (length arr) \<and> n \<le> INT_MAX \<and> t \<notin> set (take (nat n) arr) \<longrightarrow>
       binarySearch arr n t = FellOffEnd)"
proof
  have "sorted [2, 4, 7 :: int] \<and> (3::int) = int (length [2, 4, 7 :: int]) \<and>
      (5::int) \<notin> set [2, 4, 7] \<and> binarySearch [2, 4, 7] 3 5 = FellOffEnd"
    using binarySearch_absent [of 3 "[2, 4, 7]" 5] by (simp add: INT_MAX_def)
  then show "\<exists>arr n t. sorted arr \<and> n = int (length arr) \<and> t \<notin> set arr \<and>
       binarySearch arr n t = FellOffEnd"
    by blast
next
  show "\<forall>arr n t. 0 \<le> n \<and> n \<le> int (length arr) \<and> n \<le> INT_MAX \<and> t \<notin> set (take (nat n) arr) \<longrightarrow>
       binarySearch arr n t = FellOffEnd"
    using binarySearch_absent by blast
qed

text \<open>Targets between, below and above the elements of Task4's array, and the empty
  array.\<close>

theorem binarySearch_no_return_when_absent_witness:
  "binarySearch elements 50 16 = FellOffEnd \<and> binarySearch elements 50 1 = FellOffEnd \<and>
   binarySearch elements 50 181 = FellOffEnd \<and> binarySearch [] 0 7 = FellOffEnd"
proof -
  have e: "take (nat 50) elements = elements" "(50::int) \<le> int (length elements)"
    by (simp_all add: elements_def)
  have n: "(16::int) \<notin> set elements" "(1::int) \<notin> set elements" "(181::int) \<notin> set elements"
    by (simp_all add: elements_def)
  from binarySearch_no_return_when_absent
  have a: "\<And>arr n t. 0 \<le> n \<and> n \<le> int (length arr) \<and> n \<le> INT_MAX \<and> t \<notin> set (take (nat n) arr) \<Longrightarrow>
       binarySearch arr n t = FellOffEnd"
    by blast
  show ?thesis
    using a [of 50 elements 16] a [of 50 elements 1] a [of 50 elements 181] a [of 0 "[]" 7] e n
    by (simp add: INT_MAX_def)
qed

text \<open>
  Claim C1. The search contract asks for an index \<open>i\<close> with \<open>A[i] = t\<close> when \<open>t\<close> occurs and
  for a not-found value otherwise. On the array \<open>{2, 4, 7}\<close> the code returns 0 for the
  target 4, which stands at index 1 and not at index 0, and executes no \<open>return\<close> at all for
  the absent target 5.
\<close>

theorem binarySearch_not_an_index:
  "binarySearch [2, 4, 7] 3 4 = Returned 0 \<and> [2, 4, 7 :: int] ! 0 \<noteq> 4 \<and> [2, 4, 7 :: int] ! 1 = 4 \<and>
   binarySearch [2, 4, 7] 3 5 = FellOffEnd"
  by (simp add: binarySearch_def in_int_def INT_MIN_def INT_MAX_def while_body_def Let_def
      signed_divide_int_def)

text \<open>
  Claim C10. \<open>binarySearch\<close> terminates for every array, every size \<open>n \<ge> 0\<close> and every
  target: a pass through the loop body that goes on makes \<open>right - left\<close> strictly smaller,
  \<open>n\<close> passes are always enough to leave the loop, and with an array of at least \<open>n\<close>
  elements the function ends through \<open>return 0\<close> or through the failing loop condition.
\<close>

theorem binarySearch_terminates:
  "(left \<le> right \<and> while_body arr target left right = Continue l r \<longrightarrow>
      0 \<le> right - left \<and> r - l < right - left) \<and>
   (0 \<le> n \<and> n \<le> INT_MAX \<longrightarrow>
      bs_fuel (nat n) arr target 0 (n - 1) = Some (binarySearch arr n target)) \<and>
   (0 \<le> n \<and> n \<le> INT_MAX \<and> n \<le> int (length arr) \<longrightarrow>
      binarySearch arr n target = Returned 0 \<or> binarySearch arr n target = FellOffEnd)"
proof (intro conjI impI)
  assume "left \<le> right \<and> while_body arr target left right = Continue l r"
  then show "0 \<le> right - left" "r - l < right - left"
    using while_body_decreases [of left right arr target l r] by simp_all
next
  assume h: "0 \<le> n \<and> n \<le> INT_MAX"
  then have r: "in_int (n - 1)"
    by (simp add: in_int_def INT_MIN_def INT_MAX_def)
  have "nat (n - 1 - 0 + 1) \<le> nat n" by simp
  from bs_fuel_enough [OF this] show "bs_fuel (nat n) arr target 0 (n - 1) = Some (binarySearch arr n target)"
    using r by (simp add: binarySearch_def)
next
  assume h: "0 \<le> n \<and> n \<le> INT_MAX \<and> n \<le> int (length arr)"
  then have r: "in_int (n - 1)"
    by (simp add: in_int_def INT_MIN_def INT_MAX_def)
  have "bs_loop arr target 0 (n - 1) = Returned 0 \<or> bs_loop arr target 0 (n - 1) = FellOffEnd"
    using h by (intro bs_loop_ends) simp_all
  then show "binarySearch arr n target = Returned 0 \<or> binarySearch arr n target = FellOffEnd"
    using r by (simp add: binarySearch_def)
qed

text \<open>A run on three elements.\<close>

theorem binarySearch_terminates_witness:
  "while_body [2, 4, 7] 5 0 2 = Continue 2 2 \<and> (2::int) - 2 < 2 - 0 \<and>
   bs_fuel 3 [2, 4, 7] 5 0 2 = Some (binarySearch [2, 4, 7] 3 5) \<and>
   binarySearch [2, 4, 7] 3 5 = FellOffEnd"
proof -
  have w: "while_body [2, 4, 7] 5 0 2 = Continue 2 2"
    by (simp add: while_body_def in_int_def INT_MIN_def INT_MAX_def Let_def signed_divide_int_def)
  have v: "binarySearch [2, 4, 7] 3 5 = FellOffEnd"
    by (simp add: binarySearch_def in_int_def INT_MIN_def INT_MAX_def while_body_def Let_def
      signed_divide_int_def)
  show ?thesis
    using binarySearch_terminates [of 0 2 "[2, 4, 7]" 5 2 2 3] w v
    by (simp add: INT_MAX_def)
qed

section \<open>Properties of startup, the arithmetic task, the callback and the queue\<close>

lemma ipsa_sched_no_queue:
  "\<not> queue_alloc_ok k \<Longrightarrow>
   ipsa_sched k = \<lparr>xQueue = None, xTimer = None,
     calls = [Call_xQueueCreate mainQUEUE_LENGTH sizeof_uint32_t], ends_in = IdleLoop\<rparr>"
  by (simp add: ipsa_sched_def xQueueCreate_def)

lemma ipsa_sched_no_timer:
  "queue_alloc_ok k \<Longrightarrow> \<not> timer_alloc_ok k \<Longrightarrow>
   ipsa_sched k = \<lparr>xQueue = Some \<lparr>capacity = mainQUEUE_LENGTH, item_size = sizeof_uint32_t, items = []\<rparr>,
     xTimer = None,
     calls = [Call_xQueueCreate mainQUEUE_LENGTH sizeof_uint32_t, Call_xTimerCreate ''Timer'' 2000 True]
        @ create_tasks k @ [Call_vTaskStartScheduler],
     ends_in = (if scheduler_returns k then IdleLoop else SchedulerRunning)\<rparr>"
  by (simp add: ipsa_sched_def xQueueCreate_def xTimerCreate_def)

lemma ipsa_sched_all_ok:
  "queue_alloc_ok k \<Longrightarrow> timer_alloc_ok k \<Longrightarrow>
   ipsa_sched k = \<lparr>xQueue = Some \<lparr>capacity = mainQUEUE_LENGTH, item_size = sizeof_uint32_t, items = []\<rparr>,
     xTimer = Some \<lparr>timer_name = ''Timer'', timer_period = 2000, auto_reload = True, active = True\<rparr>,
     calls = [Call_xQueueCreate mainQUEUE_LENGTH sizeof_uint32_t, Call_xTimerCreate ''Timer'' 2000 True,
       Call_xTimerStart 0]
        @ create_tasks k @ [Call_vTaskStartScheduler],
     ends_in = (if scheduler_returns k then IdleLoop else SchedulerRunning)\<rparr>"
  by (simp add: ipsa_sched_def xQueueCreate_def xTimerCreate_def xTimerStart_def)

text \<open>
  Claim C2, as amended. If the queue cannot be created, the scheduler is not started and
  startup ends in the idle loop. If the queue is created and only the timer cannot be
  created, \<open>xTimerStart\<close> is skipped, the four tasks are still created and
  \<open>vTaskStartScheduler\<close> is called.
\<close>

theorem ipsa_sched_guard:
  "(\<not> queue_alloc_ok k \<longrightarrow>
      xQueue (ipsa_sched k) = None \<and>
      Call_vTaskStartScheduler \<notin> set (calls (ipsa_sched k)) \<and>
      ends_in (ipsa_sched k) = IdleLoop) \<and>
   (queue_alloc_ok k \<and> \<not> timer_alloc_ok k \<longrightarrow>
      xTimer (ipsa_sched k) = None \<and>
      Call_xTimerStart 0 \<notin> set (calls (ipsa_sched k)) \<and>
      set (create_tasks k) \<subseteq> set (calls (ipsa_sched k)) \<and>
      Call_vTaskStartScheduler \<in> set (calls (ipsa_sched k)) \<and>
      ends_in (ipsa_sched k) = (if scheduler_returns k then IdleLoop else SchedulerRunning))"
proof (intro conjI impI)
  assume "\<not> queue_alloc_ok k"
  note e = ipsa_sched_no_queue [OF this]
  show "xQueue (ipsa_sched k) = None" by (simp add: e)
  show "Call_vTaskStartScheduler \<notin> set (calls (ipsa_sched k))" by (simp add: e)
  show "ends_in (ipsa_sched k) = IdleLoop" by (simp add: e)
next
  assume "queue_alloc_ok k \<and> \<not> timer_alloc_ok k"
  then have e: "ipsa_sched k = \<lparr>xQueue = Some \<lparr>capacity = mainQUEUE_LENGTH, item_size = sizeof_uint32_t, items = []\<rparr>,
     xTimer = None,
     calls = [Call_xQueueCreate mainQUEUE_LENGTH sizeof_uint32_t, Call_xTimerCreate ''Timer'' 2000 True]
        @ create_tasks k @ [Call_vTaskStartScheduler],
     ends_in = (if scheduler_returns k then IdleLoop else SchedulerRunning)\<rparr>"
    using ipsa_sched_no_timer by blast
  show "xTimer (ipsa_sched k) = None" by (simp add: e)
  show "Call_xTimerStart 0 \<notin> set (calls (ipsa_sched k))"
    by (simp add: e create_tasks_def)
  show "set (create_tasks k) \<subseteq> set (calls (ipsa_sched k))"
    by (auto simp add: e)
  show "Call_vTaskStartScheduler \<in> set (calls (ipsa_sched k))" by (simp add: e)
  show "ends_in (ipsa_sched k) = (if scheduler_returns k then IdleLoop else SchedulerRunning)"
    by (simp add: e)
qed

text \<open>Claim C2 as stated fails when only the timer cannot be created: the scheduler is
  started.\<close>

theorem ipsa_sched_timer_failure_counterexample:
  "\<not> ((\<not> queue_alloc_ok \<lparr>tskIDLE_PRIORITY = 0, configMINIMAL_STACK_SIZE = 128, pdMS_TO_TICKS = id, tick_bits = 32,
            queue_alloc_ok = True, timer_alloc_ok = False, scheduler_returns = False\<rparr> \<or>
        \<not> timer_alloc_ok \<lparr>tskIDLE_PRIORITY = 0, configMINIMAL_STACK_SIZE = 128, pdMS_TO_TICKS = id, tick_bits = 32,
            queue_alloc_ok = True, timer_alloc_ok = False, scheduler_returns = False\<rparr>) \<longrightarrow>
       Call_vTaskStartScheduler \<notin> set (calls (ipsa_sched
          \<lparr>tskIDLE_PRIORITY = 0, configMINIMAL_STACK_SIZE = 128, pdMS_TO_TICKS = id, tick_bits = 32,
            queue_alloc_ok = True, timer_alloc_ok = False, scheduler_returns = False\<rparr>)) \<and>
       ends_in (ipsa_sched
          \<lparr>tskIDLE_PRIORITY = 0, configMINIMAL_STACK_SIZE = 128, pdMS_TO_TICKS = id, tick_bits = 32,
            queue_alloc_ok = True, timer_alloc_ok = False, scheduler_returns = False\<rparr>) = IdleLoop)"
  by (simp add: ipsa_sched_no_timer)

text \<open>Startup without memory for the queue, and startup without memory for the timer.\<close>

theorem ipsa_sched_guard_witness:
  "xQueue (ipsa_sched \<lparr>tskIDLE_PRIORITY = 0, configMINIMAL_STACK_SIZE = 128, pdMS_TO_TICKS = id, tick_bits = 32,
            queue_alloc_ok = False, timer_alloc_ok = True, scheduler_returns = False\<rparr>) = None \<and>
   ends_in (ipsa_sched \<lparr>tskIDLE_PRIORITY = 0, configMINIMAL_STACK_SIZE = 128, pdMS_TO_TICKS = id, tick_bits = 32,
            queue_alloc_ok = False, timer_alloc_ok = True, scheduler_returns = False\<rparr>) = IdleLoop \<and>
   xTimer (ipsa_sched \<lparr>tskIDLE_PRIORITY = 0, configMINIMAL_STACK_SIZE = 128, pdMS_TO_TICKS = id, tick_bits = 32,
            queue_alloc_ok = True, timer_alloc_ok = False, scheduler_returns = False\<rparr>) = None \<and>
   Call_vTaskStartScheduler \<in> set (calls (ipsa_sched \<lparr>tskIDLE_PRIORITY = 0, configMINIMAL_STACK_SIZE = 128, pdMS_TO_TICKS = id, tick_bits = 32,
            queue_alloc_ok = True, timer_alloc_ok = False, scheduler_returns = False\<rparr>)) \<and>
   ends_in (ipsa_sched \<lparr>tskIDLE_PRIORITY = 0, configMINIMAL_STACK_SIZE = 128, pdMS_TO_TICKS = id, tick_bits = 32,
            queue_alloc_ok = True, timer_alloc_ok = False, scheduler_returns = False\<rparr>) = SchedulerRunning"
  using ipsa_sched_guard [of "\<lparr>tskIDLE_PRIORITY = 0, configMINIMAL_STACK_SIZE = 128, pdMS_TO_TICKS = id, tick_bits = 32,
            queue_alloc_ok = False, timer_alloc_ok = True, scheduler_returns = False\<rparr>"]
    ipsa_sched_guard [of "\<lparr>tskIDLE_PRIORITY = 0, configMINIMAL_STACK_SIZE = 128, pdMS_TO_TICKS = id, tick_bits = 32,
            queue_alloc_ok = True, timer_alloc_ok = False, scheduler_returns = False\<rparr>"]
  by simp

text \<open>
  Claim C5. The product of the two constants of Task3 is larger than \<open>2\<^sup>6\<^sup>3 - 1\<close>, and the
  value stored in \<open>result\<close> is that product reduced modulo \<open>2\<^sup>6\<^sup>4\<close>, read in two's complement.
\<close>

theorem Task3_product:
  "sint num1 = 3287648234862934629 \<and> sint num2 = 2346723849729472340 \<and>
   2 ^ 63 - 1 < sint num1 * sint num2 \<and>
   uint result = (sint num1 * sint num2) mod 2 ^ 64 \<and>
   sint result = 6030233430655540260"
  by (simp add: num1_def num2_def result_def)

text \<open>
  Claim C7. The timer callback makes exactly one kernel call, a send of the value 200 with a
  maximum wait of zero ticks. It never blocks; on a full queue the send returns failure and
  the queue is unchanged, otherwise the value is appended.
\<close>

theorem callback_send:
  "fst (prvQueueSendTimerCallback q) = [Call_xQueueSend 200 0] \<and>
   snd (prvQueueSendTimerCallback q) \<noteq> Blocks \<and>
   (capacity q \<le> length (items q) \<longrightarrow> snd (prvQueueSendTimerCallback q) = Returns (False, q)) \<and>
   (length (items q) < capacity q \<longrightarrow>
      snd (prvQueueSendTimerCallback q) = Returns (True, q\<lparr>items := items q @ [200]\<rparr>))"
  by (simp add: prvQueueSendTimerCallback_def xQueueSend_def mainVALUE_SENT_FROM_TIMER_def)

text \<open>The callback on a full queue and on a queue with room.\<close>

theorem callback_send_witness:
  "snd (prvQueueSendTimerCallback \<lparr>capacity = 4, item_size = 4, items = [200, 200, 200, 200]\<rparr>)
     = Returns (False, \<lparr>capacity = 4, item_size = 4, items = [200, 200, 200, 200]\<rparr>) \<and>
   snd (prvQueueSendTimerCallback \<lparr>capacity = 4, item_size = 4, items = [200]\<rparr>)
     = Returns (True, \<lparr>capacity = 4, item_size = 4, items = [200, 200]\<rparr>)"
  using callback_send [of "\<lparr>capacity = 4, item_size = 4, items = [200, 200, 200, 200]\<rparr>"]
    callback_send [of "\<lparr>capacity = 4, item_size = 4, items = [200]\<rparr>"]
  by simp

text \<open>No task of the file receives from the queue: with the callback as the only user,
  the queue fills with the first four callbacks and stays full.\<close>

lemma after_callbacks_items:
  "length (items q) \<le> capacity q \<Longrightarrow>
   items (after_callbacks n q) =
     items q @ replicate (min n (capacity q - length (items q))) mainVALUE_SENT_FROM_TIMER \<and>
   capacity (after_callbacks n q) = capacity q"
proof (induction n arbitrary: q)
  case 0
  then show ?case by simp
next
  case (Suc n)
  show ?case
  proof (cases "length (items q) < capacity q")
    case True
    define q' where "q' = q\<lparr>items := items q @ [mainVALUE_SENT_FROM_TIMER]\<rparr>"
    have s: "after_callbacks (Suc n) q = after_callbacks n q'"
      using True by (simp add: prvQueueSendTimerCallback_def xQueueSend_def q'_def)
    have "length (items q') \<le> capacity q'"
      using True by (simp add: q'_def)
    from Suc.IH [OF this] have
      "items (after_callbacks n q') =
         items q' @ replicate (min n (capacity q' - length (items q'))) mainVALUE_SENT_FROM_TIMER"
      "capacity (after_callbacks n q') = capacity q'"
      by simp_all
    moreover have "capacity q - length (items q) = Suc (capacity q - Suc (length (items q)))"
      using True by simp
    ultimately show ?thesis
      unfolding s by (simp add: q'_def replicate_app_Cons_same)
  next
    case False
    with Suc.prems have full: "length (items q) = capacity q" by simp
    then have s: "after_callbacks (Suc n) q = after_callbacks n q"
      by (simp add: prvQueueSendTimerCallback_def xQueueSend_def)
    show ?thesis
      unfolding s using Suc.IH [OF Suc.prems] full by simp
  qed
qed

lemma callbacks_fill_queue:
  "items (after_callbacks n \<lparr>capacity = mainQUEUE_LENGTH, item_size = sizeof_uint32_t, items = []\<rparr>)
     = replicate (min n 4) 200"
  using after_callbacks_items [of "\<lparr>capacity = mainQUEUE_LENGTH, item_size = sizeof_uint32_t, items = []\<rparr>" n]
  by (simp add: mainQUEUE_LENGTH_def mainVALUE_SENT_FROM_TIMER_def)

lemma queue_step_fields:
  "capacity (queue_step q opn) = capacity q \<and> item_size (queue_step q opn) = item_size q"
  by (cases opn) (auto simp: xQueueSend_def xQueueReceive_def split: list.splits)

lemma queue_step_count:
  "length (items q) \<le> capacity q \<Longrightarrow> length (items (queue_step q opn)) \<le> capacity q"
  by (cases opn) (auto simp: xQueueSend_def xQueueReceive_def split: list.splits)

lemma queue_run_inv:
  "length (items q) \<le> capacity q \<Longrightarrow>
   capacity (queue_run q ops) = capacity q \<and> item_size (queue_run q ops) = item_size q \<and>
   length (items (queue_run q ops)) \<le> capacity q"
  unfolding queue_run_def
proof (induction ops arbitrary: q)
  case Nil
  then show ?case by simp
next
  case (Cons opn ops)
  from Cons.prems have "length (items (queue_step q opn)) \<le> capacity (queue_step q opn)"
    using queue_step_count [of q opn] queue_step_fields [of q opn] by simp
  from Cons.IH [OF this] show ?case
    using queue_step_fields [of q opn] by simp
qed

lemma ipsa_sched_cases:
  "ipsa_sched k = \<lparr>xQueue = None, xTimer = None,
     calls = [Call_xQueueCreate mainQUEUE_LENGTH sizeof_uint32_t], ends_in = IdleLoop\<rparr> \<or>
   (\<exists>t rest. ipsa_sched k = \<lparr>xQueue = Some \<lparr>capacity = mainQUEUE_LENGTH, item_size = sizeof_uint32_t, items = []\<rparr>,
     xTimer = t,
     calls = Call_xQueueCreate mainQUEUE_LENGTH sizeof_uint32_t # Call_xTimerCreate ''Timer'' 2000 True # rest
        @ create_tasks k @ [Call_vTaskStartScheduler],
     ends_in = (if scheduler_returns k then IdleLoop else SchedulerRunning)\<rparr> \<and>
     (rest = [] \<or> rest = [Call_xTimerStart 0]))"
proof (cases "queue_alloc_ok k")
  case False
  then show ?thesis by (simp add: ipsa_sched_no_queue)
next
  case q: True
  show ?thesis
  proof (cases "timer_alloc_ok k")
    case True
    with q show ?thesis by (simp add: ipsa_sched_all_ok)
  next
    case False
    with q show ?thesis by (simp add: ipsa_sched_no_timer)
  qed
qed

lemma filter_create_tasks: "filter is_xQueueCreate (create_tasks k) = []"
  by (simp add: create_tasks_def)

text \<open>
  Claim C8. Startup creates the queue exactly once, with length 4 and items of
  \<open>sizeof(uint32_t)\<close> = 4 bytes; the queue starts empty, and after any sequence of sends and
  receives it still has capacity 4 and holds at most 4 items.
\<close>

theorem queue_created_once_and_bounded:
  "filter is_xQueueCreate (calls (ipsa_sched k)) = [Call_xQueueCreate 4 4] \<and>
   (\<forall>q ops. xQueue (ipsa_sched k) = Some q \<longrightarrow>
      items q = [] \<and>
      capacity (queue_run q ops) = 4 \<and> item_size (queue_run q ops) = 4 \<and>
      length (items (queue_run q ops)) \<le> 4)"
proof
  show "filter is_xQueueCreate (calls (ipsa_sched k)) = [Call_xQueueCreate 4 4]"
    using ipsa_sched_cases [of k]
    by (auto simp: filter_create_tasks mainQUEUE_LENGTH_def sizeof_uint32_t_def)
next
  show "\<forall>q ops. xQueue (ipsa_sched k) = Some q \<longrightarrow>
      items q = [] \<and>
      capacity (queue_run q ops) = 4 \<and> item_size (queue_run q ops) = 4 \<and>
      length (items (queue_run q ops)) \<le> 4"
  proof (intro allI impI)
    fix q ops
    assume "xQueue (ipsa_sched k) = Some q"
    then have q: "q = \<lparr>capacity = 4, item_size = 4, items = []\<rparr>"
      using ipsa_sched_cases [of k]
      by (auto simp: mainQUEUE_LENGTH_def sizeof_uint32_t_def)
    then have "length (items q) \<le> capacity q" by simp
    from queue_run_inv [OF this, of ops] q
    show "items q = [] \<and>
      capacity (queue_run q ops) = 4 \<and> item_size (queue_run q ops) = 4 \<and>
      length (items (queue_run q ops)) \<le> 4"
      by simp
  qed
qed

text \<open>Startup with enough memory, followed by more sends than the queue can hold.\<close>

theorem queue_created_once_and_bounded_witness:
  "xQueue (ipsa_sched \<lparr>tskIDLE_PRIORITY = 0, configMINIMAL_STACK_SIZE = 128, pdMS_TO_TICKS = id, tick_bits = 32,
       queue_alloc_ok = True, timer_alloc_ok = True, scheduler_returns = False\<rparr>)
     = Some \<lparr>capacity = 4, item_size = 4, items = []\<rparr> \<and>
   length (items (queue_run \<lparr>capacity = 4, item_size = 4, items = []\<rparr>
     [Send 200 0, Send 200 0, Send 100 0, Send 200 0, Send 200 0, Receive 0, Send 100 0, Send 200 0])) \<le> 4"
proof -
  have x: "xQueue (ipsa_sched \<lparr>tskIDLE_PRIORITY = 0, configMINIMAL_STACK_SIZE = 128, pdMS_TO_TICKS = id, tick_bits = 32,
       queue_alloc_ok = True, timer_alloc_ok = True, scheduler_returns = False\<rparr>)
     = Some \<lparr>capacity = 4, item_size = 4, items = []\<rparr>"
    by (simp add: ipsa_sched_def xQueueCreate_def xTimerCreate_def mainQUEUE_LENGTH_def
        sizeof_uint32_t_def)
  from queue_created_once_and_bounded [of "\<lparr>tskIDLE_PRIORITY = 0, configMINIMAL_STACK_SIZE = 128, pdMS_TO_TICKS = id, tick_bits = 32,
       queue_alloc_ok = True, timer_alloc_ok = True, scheduler_returns = False\<rparr>"] x
  show ?thesis by simp
qed

section \<open>Wake times of the periodic tasks\<close>

lemma funpow_wake:
  fixes f :: "task_state \<Rightarrow> task_state"
  assumes "\<And>st. xNextWakeTime (f st) = (xNextWakeTime st + p) mod m"
    and "xNextWakeTime st < m"
  shows "xNextWakeTime ((f ^^ n) st) = (xNextWakeTime st + n * p) mod m"
proof (induction n)
  case 0
  then show ?case using assms(2) by simp
next
  case (Suc n)
  have "xNextWakeTime ((f ^^ Suc n) st) = ((xNextWakeTime st + n * p) mod m + p) mod m"
    by (simp add: assms(1) Suc.IH)
  also have "\<dots> = (xNextWakeTime st + n * p + p) mod m"
    by (simp add: mod_add_left_eq)
  finally show ?case
    by (simp add: algebra_simps)
qed

lemma wrap_decreases:
  fixes a p m :: nat
  assumes "a < m" "p < m" "m \<le> a + p"
  shows "(a + p) mod m < a"
proof -
  have "(a + p) mod m = a + p - m"
    using assms by (simp add: mod_if)
  then show ?thesis
    using assms by simp
qed

lemma task_run_Suc:
  "xNextWakeTime (task_run t k now (Suc n)) =
     (xNextWakeTime (task_run t k now n) + task_period t k) mod 2 ^ tick_bits k"
  by (cases t)
     (simp_all add: Task1_def Task2_def Task3_def Task4_def Task1_cycle_def Task2_cycle_def
        Task3_cycle_def Task4_cycle_def vTaskDelayUntil_def)

lemma task_run_closed:
  assumes "now < 2 ^ tick_bits k"
  shows "xNextWakeTime (task_run t k now n) = (now + n * task_period t k) mod 2 ^ tick_bits k"
proof (cases t)
  case Fn_Task1
  have "xNextWakeTime ((Task1_cycle k ^^ n) (task_init now)) =
      (xNextWakeTime (task_init now) + n * TASK1_FREQUENCY k) mod 2 ^ tick_bits k"
    using assms by (intro funpow_wake) (simp_all add: Task1_cycle_def vTaskDelayUntil_def task_init_def)
  then show ?thesis
    by (simp add: Fn_Task1 Task1_def task_init_def)
next
  case Fn_Task2
  have "xNextWakeTime ((Task2_cycle k ^^ n) (task_init now)) =
      (xNextWakeTime (task_init now) + n * TASK2_FREQUENCY k) mod 2 ^ tick_bits k"
    using assms by (intro funpow_wake) (simp_all add: Task2_cycle_def vTaskDelayUntil_def task_init_def)
  then show ?thesis
    by (simp add: Fn_Task2 Task2_def task_init_def)
next
  case Fn_Task3
  have "xNextWakeTime ((Task3_cycle k ^^ n) (task_init now)) =
      (xNextWakeTime (task_init now) + n * TASK3_FREQUENCY k) mod 2 ^ tick_bits k"
    using assms by (intro funpow_wake) (simp_all add: Task3_cycle_def vTaskDelayUntil_def task_init_def)
  then show ?thesis
    by (simp add: Fn_Task3 Task3_def task_init_def)
next
  case Fn_Task4
  have "xNextWakeTime ((Task4_cycle k ^^ n) (task_init now)) =
      (xNextWakeTime (task_init now) + n * TASK4_FREQUENCY k) mod 2 ^ tick_bits k"
    using assms by (intro funpow_wake) (simp_all add: Task4_cycle_def vTaskDelayUntil_def task_init_def)
  then show ?thesis
    by (simp add: Fn_Task4 Task4_def task_init_def)
qed

text \<open>
  Claim C6, as amended. For each of the four periodic tasks the next-wake tick advances by
  exactly the task's fixed period on every cycle, in the unsigned arithmetic of the tick
  type, that is modulo \<open>2 ^ tick_bits\<close>, and from the previous wake time, not from the
  current time; after \<open>n\<close> cycles it is the start tick plus \<open>n\<close> periods modulo
  \<open>2 ^ tick_bits\<close>, so no drift builds up. In a cycle in which the sum stays below
  \<open>2 ^ tick_bits\<close>, consecutive activation ticks differ by exactly the period and the
  next-wake tick does not decrease; in a cycle in which the sum wraps around, it decreases.
\<close>

theorem wake_time_advances_by_period:
  "xNextWakeTime (task_run t k now (Suc n)) =
     (xNextWakeTime (task_run t k now n) + task_period t k) mod 2 ^ tick_bits k \<and>
   (now < 2 ^ tick_bits k \<longrightarrow>
      xNextWakeTime (task_run t k now n) = (now + n * task_period t k) mod 2 ^ tick_bits k) \<and>
   (xNextWakeTime (task_run t k now n) + task_period t k < 2 ^ tick_bits k \<longrightarrow>
      xNextWakeTime (task_run t k now (Suc n)) = xNextWakeTime (task_run t k now n) + task_period t k \<and>
      xNextWakeTime (task_run t k now n) \<le> xNextWakeTime (task_run t k now (Suc n))) \<and>
   (now < 2 ^ tick_bits k \<and> task_period t k < 2 ^ tick_bits k \<and>
    2 ^ tick_bits k \<le> xNextWakeTime (task_run t k now n) + task_period t k \<longrightarrow>
      xNextWakeTime (task_run t k now (Suc n)) < xNextWakeTime (task_run t k now n))"
proof (intro conjI impI)
  show "xNextWakeTime (task_run t k now (Suc n)) =
     (xNextWakeTime (task_run t k now n) + task_period t k) mod 2 ^ tick_bits k"
    by (rule task_run_Suc)
next
  assume "now < 2 ^ tick_bits k"
  then show "xNextWakeTime (task_run t k now n) = (now + n * task_period t k) mod 2 ^ tick_bits k"
    by (rule task_run_closed)
next
  assume h: "xNextWakeTime (task_run t k now n) + task_period t k < 2 ^ tick_bits k"
  then show e: "xNextWakeTime (task_run t k now (Suc n)) =
      xNextWakeTime (task_run t k now n) + task_period t k"
    by (simp add: task_run_Suc)
  show "xNextWakeTime (task_run t k now n) \<le> xNextWakeTime (task_run t k now (Suc n))"
    unfolding e by simp
next
  assume h: "now < 2 ^ tick_bits k \<and> task_period t k < 2 ^ tick_bits k \<and>
    2 ^ tick_bits k \<le> xNextWakeTime (task_run t k now n) + task_period t k"
  then have "xNextWakeTime (task_run t k now n) < 2 ^ tick_bits k"
    by (simp add: task_run_closed)
  with h show "xNextWakeTime (task_run t k now (Suc n)) < xNextWakeTime (task_run t k now n)"
    unfolding task_run_Suc by (intro wrap_decreases) simp_all
qed

text \<open>Claim C6 as stated fails where the tick count wraps around, whatever the width of
  the tick type: with one tick per millisecond and a start 100 ticks before the wrap, the
  first wake time of Task2 is tick 100, for ticks of 16, 32 and 64 bits.\<close>

theorem wake_time_wraps_counterexample:
  "\<not> xNextWakeTime (Task2 \<lparr>tskIDLE_PRIORITY = 0, configMINIMAL_STACK_SIZE = 128, pdMS_TO_TICKS = id, tick_bits = 16, queue_alloc_ok = True, timer_alloc_ok = True, scheduler_returns = False\<rparr> 65436 0) \<le> xNextWakeTime (Task2 \<lparr>tskIDLE_PRIORITY = 0, configMINIMAL_STACK_SIZE = 128, pdMS_TO_TICKS = id, tick_bits = 16, queue_alloc_ok = True, timer_alloc_ok = True, scheduler_returns = False\<rparr> 65436 1) \<and>
   \<not> xNextWakeTime (Task2 \<lparr>tskIDLE_PRIORITY = 0, configMINIMAL_STACK_SIZE = 128, pdMS_TO_TICKS = id, tick_bits = 32, queue_alloc_ok = True, timer_alloc_ok = True, scheduler_returns = False\<rparr> 4294967196 0) \<le> xNextWakeTime (Task2 \<lparr>tskIDLE_PRIORITY = 0, configMINIMAL_STACK_SIZE = 128, pdMS_TO_TICKS = id, tick_bits = 32, queue_alloc_ok = True, timer_alloc_ok = True, scheduler_returns = False\<rparr> 4294967196 1) \<and>
   \<not> xNextWakeTime (Task2 \<lparr>tskIDLE_PRIORITY = 0, configMINIMAL_STACK_SIZE = 128, pdMS_TO_TICKS = id, tick_bits = 64, queue_alloc_ok = True, timer_alloc_ok = True, scheduler_returns = False\<rparr> 18446744073709551516 0)
       \<le> xNextWakeTime (Task2 \<lparr>tskIDLE_PRIORITY = 0, configMINIMAL_STACK_SIZE = 128, pdMS_TO_TICKS = id, tick_bits = 64, queue_alloc_ok = True, timer_alloc_ok = True, scheduler_returns = False\<rparr> 18446744073709551516 1)"
  by (simp add: Task2_def Task2_cycle_def task_init_def vTaskDelayUntil_def TASK2_FREQUENCY_def)

text \<open>Task2 with 32-bit ticks and one tick per millisecond: started at tick 1000, and
  started 100 ticks before the wrap.\<close>

theorem wake_time_advances_by_period_witness:
  "xNextWakeTime (task_run Fn_Task2 \<lparr>tskIDLE_PRIORITY = 0, configMINIMAL_STACK_SIZE = 128, pdMS_TO_TICKS = id, tick_bits = 32, queue_alloc_ok = True, timer_alloc_ok = True, scheduler_returns = False\<rparr> 1000 3) = 1600 \<and>
   xNextWakeTime (task_run Fn_Task2 \<lparr>tskIDLE_PRIORITY = 0, configMINIMAL_STACK_SIZE = 128, pdMS_TO_TICKS = id, tick_bits = 32, queue_alloc_ok = True, timer_alloc_ok = True, scheduler_returns = False\<rparr> 1000 (Suc 3)) = 1800 \<and>
   xNextWakeTime (task_run Fn_Task2 \<lparr>tskIDLE_PRIORITY = 0, configMINIMAL_STACK_SIZE = 128, pdMS_TO_TICKS = id, tick_bits = 32, queue_alloc_ok = True, timer_alloc_ok = True, scheduler_returns = False\<rparr> 4294967196 0) = 4294967196 \<and>
   xNextWakeTime (task_run Fn_Task2 \<lparr>tskIDLE_PRIORITY = 0, configMINIMAL_STACK_SIZE = 128, pdMS_TO_TICKS = id, tick_bits = 32, queue_alloc_ok = True, timer_alloc_ok = True, scheduler_returns = False\<rparr> 4294967196 (Suc 0)) = 100"
  using wake_time_advances_by_period [of Fn_Task2 "\<lparr>tskIDLE_PRIORITY = 0, configMINIMAL_STACK_SIZE = 128, pdMS_TO_TICKS = id, tick_bits = 32, queue_alloc_ok = True, timer_alloc_ok = True, scheduler_returns = False\<rparr>" 1000 3]
    wake_time_advances_by_period [of Fn_Task2 "\<lparr>tskIDLE_PRIORITY = 0, configMINIMAL_STACK_SIZE = 128, pdMS_TO_TICKS = id, tick_bits = 32, queue_alloc_ok = True, timer_alloc_ok = True, scheduler_returns = False\<rparr>" 4294967196 0]
  by (simp add: TASK2_FREQUENCY_def)

section \<open>The conversion of Task2\<close>

lemma powi_nat: "0 \<le> e \<Longrightarrow> (2::rat) powi e = 2 ^ nat e"
  by (simp add: power_int_def)

lemma binary_exponent_ge1:
  assumes "1 \<le> x"
  shows "2 powi binary_exponent x \<le> x \<and> x < 2 powi (binary_exponent x + 1)"
proof -
  define n where "n = \<lfloor>x\<rfloor>"
  have n: "0 < n" using assms by (simp add: n_def)
  have b: "1 \<le> bitlen n" using n by (simp add: bitlen_alt_def)
  from bitlen_bounds [OF n] have lo: "2 ^ nat (bitlen n - 1) \<le> n" and hi: "n < 2 ^ nat (bitlen n)"
    by simp_all
  have "(of_int (2 ^ nat (bitlen n - 1)) :: rat) \<le> of_int n"
    using lo by (simp only: of_int_le_iff)
  also have "\<dots> \<le> x" by (simp add: n_def)
  finally have l: "2 ^ nat (bitlen n - 1) \<le> x" by simp
  have "n + 1 \<le> 2 ^ nat (bitlen n)" using hi by simp
  then have "(of_int (n + 1) :: rat) \<le> of_int (2 ^ nat (bitlen n))"
    by (simp only: of_int_le_iff)
  moreover have "x < of_int (n + 1)" unfolding n_def by linarith
  ultimately have h: "x < 2 ^ nat (bitlen n)" by simp
  have e: "binary_exponent x = bitlen n - 1"
    using assms by (simp add: binary_exponent_def n_def)
  show ?thesis
    using l h b by (simp add: e powi_nat)
qed

lemma binary_exponent_lt1:
  assumes "0 < x" "x < 1"
  shows "2 powi binary_exponent x \<le> x \<and> x < 2 powi (binary_exponent x + 1)"
proof -
  define y where "y = 1 / x"
  define m where "m = \<lceil>y\<rceil> - 1"
  have y: "1 < y" using assms by (simp add: y_def)
  then have m: "0 < m" unfolding m_def by linarith
  have b: "1 \<le> bitlen m" using m by (simp add: bitlen_alt_def)
  from bitlen_bounds [OF m] have lo: "2 ^ nat (bitlen m - 1) \<le> m" and hi: "m < 2 ^ nat (bitlen m)"
    by simp_all
  have my: "of_int m < y" unfolding m_def by linarith
  have ym: "y \<le> of_int (m + 1)" unfolding m_def by (simp add: le_of_int_ceiling)
  have "m + 1 \<le> 2 ^ nat (bitlen m)" using hi by simp
  then have "(of_int (m + 1) :: rat) \<le> of_int (2 ^ nat (bitlen m))"
    by (simp only: of_int_le_iff)
  with ym have yh: "y \<le> 2 ^ nat (bitlen m)" by simp
  have "(2::rat) ^ nat (bitlen m - 1) = of_int (2 ^ nat (bitlen m - 1))"
    by simp
  also have "\<dots> \<le> of_int m"
    using lo by (simp only: of_int_le_iff)
  also have "\<dots> < y" by (fact my)
  finally have yl: "2 ^ nat (bitlen m - 1) < y" .
  have e: "binary_exponent x = - bitlen m"
    using assms by (simp add: binary_exponent_def m_def y_def)
  have x: "x = 1 / y" using assms by (simp add: y_def)
  have p1: "(2::rat) powi (- bitlen m) = 1 / 2 ^ nat (bitlen m)"
    using b by (simp add: power_int_def field_simps)
  have p2: "(2::rat) powi (- bitlen m + 1) = 1 / 2 ^ nat (bitlen m - 1)"
    using b by (simp add: power_int_def field_simps)
  have "1 / 2 ^ nat (bitlen m) \<le> 1 / y"
    using yh y by (simp add: field_simps)
  moreover have "1 / y < 1 / 2 ^ nat (bitlen m - 1)"
    using yl y by (simp add: field_simps)
  ultimately show ?thesis
    unfolding e p1 p2 by (simp add: x)
qed

lemma binary_exponent_bounds:
  "0 < x \<Longrightarrow> 2 powi binary_exponent x \<le> x \<and> x < 2 powi (binary_exponent x + 1)"
  using binary_exponent_ge1 [of x] binary_exponent_lt1 [of x] by (cases "1 \<le> x") simp_all

lemma powi_mono: "a \<le> b \<Longrightarrow> (2::rat) powi a \<le> 2 powi b"
  by (rule power_int_increasing) simp_all

lemma binary_exponent_unique:
  assumes "0 < x" "2 powi e \<le> x" "x < 2 powi (e + 1)"
  shows "binary_exponent x = e"
proof (rule ccontr)
  assume ne: "binary_exponent x \<noteq> e"
  from binary_exponent_bounds [OF assms(1)]
  have lo: "2 powi binary_exponent x \<le> x" and hi: "x < 2 powi (binary_exponent x + 1)"
    by simp_all
  show False
  proof (cases "binary_exponent x < e")
    case True
    then have "(2::rat) powi (binary_exponent x + 1) \<le> 2 powi e"
      by (intro powi_mono) simp
    with hi assms(2) show False by simp
  next
    case False
    with ne have "e + 1 \<le> binary_exponent x" by simp
    then have "(2::rat) powi (e + 1) \<le> 2 powi binary_exponent x"
      by (intro powi_mono)
    with lo assms(3) show False by simp
  qed
qed

lemma round_half_even_near:
  assumes "\<bar>y - of_int m\<bar> < 1 / 2"
  shows "round_half_even y = m"
proof (cases "of_int m \<le> y")
  case True
  with assms have f: "\<lfloor>y\<rfloor> = m" by (intro floor_unique) auto
  show ?thesis
    using assms True by (simp add: round_half_even_def f Let_def)
next
  case False
  with assms have f: "\<lfloor>y\<rfloor> = m - 1" by (intro floor_unique) auto
  show ?thesis
    using assms False by (simp add: round_half_even_def f Let_def)
qed

lemma binary64_normal:
  assumes x: "0 < x" and lo: "2 powi e \<le> x" and hi: "x < 2 powi (e + 1)"
    and e: "- 1022 \<le> e" "e \<le> 52"
    and m: "\<bar>x * 2 ^ nat (52 - e) - of_int m\<bar> < 1 / 2" "0 \<le> m" "m \<le> 2 ^ 53"
  shows "binary64 x = Some (of_int m / 2 ^ nat (52 - e))"
proof -
  have ex: "binary_exponent x = e"
    using x lo hi by (rule binary_exponent_unique)
  have ulp: "(2::rat) powi (e - 52) = 1 / 2 ^ nat (52 - e)"
    using e(2) by (simp add: power_int_def field_simps)
  have r: "round_half_even (x / (1 / 2 ^ nat (52 - e))) = m"
    using m(1) by (intro round_half_even_near) simp
  have nz: "x \<noteq> 0" "\<bar>x\<bar> = x" "sgn x = 1"
    using x by simp_all
  have mx: "max e (- 1022) = e"
    using e(1) by simp
  have y: "sgn x * of_int (round_half_even (\<bar>x\<bar> / 2 powi (max (binary_exponent \<bar>x\<bar>) (- 1022) - 52)))
      * 2 powi (max (binary_exponent \<bar>x\<bar>) (- 1022) - 52) = of_int m / 2 ^ nat (52 - e)"
    unfolding nz ex mx ulp r by simp
  have "(of_int m :: rat) / 2 ^ nat (52 - e) \<le> of_int m"
    using m(2) by (simp add: divide_le_eq mult_le_cancel_left1)
  also have "\<dots> \<le> of_int (2 ^ 53)"
    using m(3) by (simp only: of_int_le_iff)
  also have "\<dots> < 2 ^ 1024"
    by simp
  finally have "(of_int m :: rat) / 2 ^ nat (52 - e) < 2 powi 1024"
    by simp
  moreover have "0 \<le> (of_int m :: rat) / 2 ^ nat (52 - e)"
    using m(2) by simp
  ultimately have ay: "\<bar>(of_int m :: rat) / 2 ^ nat (52 - e)\<bar> < 2 powi 1024"
    by simp
  show ?thesis
    unfolding binary64_def Let_def y using nz(1) ay by simp
qed

lemma celsius_quotient: "double_div 5 9 = Some (5003999585967218 / 2 ^ 53)"
proof -
  have "binary64 (5 / 9) = Some (of_int 5003999585967218 / 2 ^ nat (52 - (- 1)))"
    by (rule binary64_normal) simp_all
  then show ?thesis
    by (simp add: double_div_def)
qed

lemma celsius_difference: "double_sub fahrenheit 32 = Some 68"
proof -
  have "binary64 68 = Some (of_int (68 * 2 ^ 46) / 2 ^ nat (52 - 6))"
    by (rule binary64_normal) simp_all
  then show ?thesis
    by (simp add: double_sub_def fahrenheit_def)
qed

lemma celsius_product:
  "double_mul (5003999585967218 / 2 ^ 53) 68 = Some (5316749560090169 / 2 ^ 47)"
proof -
  have "binary64 (5003999585967218 / 2 ^ 53 * 68) = Some (of_int 5316749560090169 / 2 ^ nat (52 - 5))"
    by (rule binary64_normal) simp_all
  then show ?thesis
    by (simp add: double_mul_def)
qed

lemma celsius_value: "celsius = Some (5316749560090169 / 2 ^ 47)"
  using celsius_quotient celsius_difference celsius_product
  by (simp add: celsius_def)

lemma digits_numeral:
  "digits (numeral k) n = digits (pred_numeral k) (n div 10) @ [digit_char (n mod 10)]"
proof -
  have "digits (Suc (pred_numeral k)) n = digits (pred_numeral k) (n div 10) @ [digit_char (n mod 10)]"
    by (rule digits.simps)
  then show ?thesis
    by (simp only: numeral_eq_Suc [symmetric])
qed

lemma printf_celsius: "printf_f (5316749560090169 / 2 ^ 47) = ''37.777778''"
proof -
  have "round_half_even (\<bar>5316749560090169 / 2 ^ 47\<bar> * 10 ^ 6) = 37777778"
    by (rule round_half_even_near) simp
  moreover have "floorlog 10 37 = 2"
    by (simp add: compute_floorlog)
  moreover have "digits 2 37 = ''37''" "digits 6 777778 = ''777778''"
    by (simp_all add: digits_numeral digit_char_def)
  ultimately show ?thesis
    by (simp add: printf_f_def digit_count_def)
qed

lemma Task2_console:
  "console (Task2 k now n) = replicate n (Printf_double ''Temp: %f\<newline>'' celsius)"
proof (induction n)
  case 0
  then show ?case by (simp add: Task2_def task_init_def)
next
  case (Suc n)
  have "console (Task2 k now (Suc n)) =
      console (Task2 k now n) @ [Printf_double ''Temp: %f\<newline>'' celsius]"
    by (simp add: Task2_def Task2_cycle_def)
  then show ?case
    by (simp add: Suc.IH replicate_append_same)
qed

text \<open>
  Claim C9, as amended. On every activation Task2 computes
  \<open>(5.0 / 9.0) * (fahrenheit - 32.0)\<close> for \<open>fahrenheit = 100\<close> in \<open>double\<close> arithmetic and
  passes it to \<open>printf\<close>. The value is \<open>5316749560090169 / 2\<^sup>4\<^sup>7\<close>: the \<open>double\<close> nearest
  to 340/9, less than \<open>10\<^sup>-\<^sup>1\<^sup>5\<close> away from it and not equal to it; \<open>%f\<close> writes it as
  37.777778.
\<close>

theorem Task2_celsius:
  "celsius = Some (5316749560090169 / 2 ^ 47) \<and>
   binary64 (340 / 9) = celsius \<and>
   (5316749560090169 / 2 ^ 47 :: rat) \<noteq> 340 / 9 \<and>
   \<bar>5316749560090169 / 2 ^ 47 - 340 / 9\<bar> < (1 / 10 ^ 15 :: rat) \<and>
   printf_f (5316749560090169 / 2 ^ 47) = ''37.777778'' \<and>
   console (Task2 k now n) = replicate n (Printf_double ''Temp: %f\<newline>'' celsius)"
proof -
  have "binary64 (340 / 9) = Some (of_int 5316749560090169 / 2 ^ nat (52 - 5))"
    by (rule binary64_normal) simp_all
  then have "binary64 (340 / 9) = celsius"
    by (simp add: celsius_value)
  moreover have "(5316749560090169 / 2 ^ 47 :: rat) \<noteq> 340 / 9"
    by simp
  moreover have "\<bar>5316749560090169 / 2 ^ 47 - 340 / 9\<bar> < (1 / 10 ^ 15 :: rat)"
    by simp
  ultimately show ?thesis
    using celsius_value printf_celsius Task2_console by simp
qed

text \<open>Claim C9 as stated fails: the value that Task2 computes and emits is not 340/9.\<close>

theorem Task2_celsius_counterexample: "celsius \<noteq> Some (340 / 9)"
  by (simp add: celsius_value)

end
